theory Spec2Isabelle
  imports Main
begin

section \<open>Data model of \<^verbatim>\<open>src/cluster/topics.ts\<close>\<close>

text \<open>
  A message as \<^verbatim>\<open>cluster\<close> reads it: the fields \<^verbatim>\<open>id\<close>, \<^verbatim>\<open>text\<close> and
  \<^verbatim>\<open>content\<close> may be absent (\<open>None\<close> stands for \<^verbatim>\<open>undefined\<close>), \<^verbatim>\<open>role\<close> is
  compared with string literals. A \<open>string\<close> is a list of code units; its \<open>length\<close> is
  what JavaScript's \<^verbatim>\<open>.length\<close> and \<^verbatim>\<open>.slice\<close> count.
\<close>

record message =
  msg_id :: "string option"
  msg_role :: string
  msg_text :: "string option"
  msg_content :: "string option"

text \<open>The metadata object \<^verbatim>\<open>{ role, text }\<close> passed to \<^verbatim>\<open>MemStore.upsert\<close>.\<close>

record meta =
  meta_role :: string
  meta_text :: string

text \<open>One result of \<^verbatim>\<open>MemStore.query\<close>; \<^verbatim>\<open>cluster\<close> reads only \<^verbatim>\<open>hit.id\<close>.\<close>

record 's hit =
  hit_id :: string
  hit_score :: 's

text \<open>
  The object literal \<^verbatim>\<open>{ id: m.id, title: ... }\<close> of line 18. The id is copied from the
  message as it is, so it is absent when the message's id is.
\<close>

record seed =
  seed_id :: "string option"
  seed_title :: string

text \<open>
  An element of \<^verbatim>\<open>topics\<close> and of the returned array. The array \<^verbatim>\<open>ids\<close> starts with
  \<^verbatim>\<open>seed.id\<close>, which may be \<^verbatim>\<open>undefined\<close>; hence the element type \<open>string option\<close>.
\<close>

record topic =
  title :: string
  ids :: "string option list"

text \<open>
  What \<^verbatim>\<open>cluster\<close> imports and calls but does not define: \<^verbatim>\<open>embed\<close>
  (\<^verbatim>\<open>semantic/localEmbed.js\<close>), the two operations of the process-wide \<^verbatim>\<open>MemStore\<close>
  (\<^verbatim>\<open>semantic/memStore.js\<close>) and \<^verbatim>\<open>randomUUID\<close> of \<^verbatim>\<open>node:crypto\<close>. They are
  parameters of the model. The store's contents are a value of type \<open>'st\<close> that
  \<open>upsert\<close> transforms and \<open>query\<close> only reads; the \<open>n\<close>-th call of
  \<^verbatim>\<open>randomUUID()\<close> within one run returns \<open>randomUUID n\<close>, so two runs that draw different
  identifiers are two values of this field. All four are taken to return normally.
\<close>

record ('e, 'st, 's) services =
  embed :: "string \<Rightarrow> 'e"
  upsert :: "'st \<Rightarrow> string \<Rightarrow> 'e \<Rightarrow> meta \<Rightarrow> 'st"
  query :: "'st \<Rightarrow> 'e \<Rightarrow> int \<Rightarrow> 's hit list"
  randomUUID :: "nat \<Rightarrow> string"

section \<open>JavaScript primitives used by \<^verbatim>\<open>cluster\<close>\<close>

text \<open>\<^verbatim>\<open>s.split("\n")\<close>: the pieces of \<open>s\<close> between line feeds; never an empty array.\<close>

fun split_nl :: "string \<Rightarrow> string list" where
  "split_nl [] = [[]]"
| "split_nl (c # cs) =
     (if c = CHR 0x0A then [] # split_nl cs
      else (case split_nl cs of
              [] \<Rightarrow> [[c]]
            | l # ls \<Rightarrow> (c # l) # ls))"

text \<open>
  A JavaScript \<^verbatim>\<open>Set\<close> keeps its elements in insertion order without repetition; it is
  modelled by the list of its elements in that order. \<open>set_add\<close> is \<^verbatim>\<open>Set.prototype.add\<close>,
  \<open>new_Set\<close> is \<^verbatim>\<open>new Set(iterable)\<close>, and \<^verbatim>\<open>Array.from\<close> of a set is the list itself.
\<close>

definition set_add :: "'a list \<Rightarrow> 'a \<Rightarrow> 'a list" where
  "set_add s x = (if x \<in> set s then s else s @ [x])"

definition new_Set :: "'a list \<Rightarrow> 'a list" where
  "new_Set xs = foldl set_add [] xs"

section \<open>The function \<^verbatim>\<open>cluster\<close>\<close>

text \<open>\<^verbatim>\<open>msg.text ?? msg.content ?? ""\<close> (lines 9 and 18).\<close>

definition text_or_content :: "message \<Rightarrow> string" where
  "text_or_content m =
     (case msg_text m of
        Some t \<Rightarrow> t
      | None \<Rightarrow> (case msg_content m of Some c \<Rightarrow> c | None \<Rightarrow> []))"

text \<open>
  \<^verbatim>\<open>msg.id || randomUUID()\<close> (line 10): the id when it is present and not the empty
  string; otherwise \<^verbatim>\<open>randomUUID\<close> is called. \<open>n\<close> counts the calls made so far in this
  run; the result is the key and the count afterwards.
\<close>

definition id_or_uuid :: "('e, 'st, 's) services \<Rightarrow> nat \<Rightarrow> message \<Rightarrow> string \<times> nat" where
  "id_or_uuid S n m =
     (case msg_id m of
        Some i \<Rightarrow> if i \<noteq> [] then (i, n) else (randomUUID S n, Suc n)
      | None \<Rightarrow> (randomUUID S n, Suc n))"

text \<open>
  Lines 8 to 14, one iteration per relevant message. The result is the store after the
  loop, with the number of identifiers drawn.
\<close>

fun ingest :: "('e, 'st, 's) services \<Rightarrow> nat \<Rightarrow> 'st \<Rightarrow> message list \<Rightarrow> 'st \<times> nat" where
  "ingest S n st [] = (st, n)"
| "ingest S n st (m # ms) =
     (let txt = text_or_content m;
          md = \<lparr>meta_role = msg_role m, meta_text = txt\<rparr>
      in case id_or_uuid S n m of
           (key, n') \<Rightarrow> ingest S n' (upsert S st key (embed S txt) md) ms)"

text \<open>The first arguments of the calls of \<^verbatim>\<open>MemStore.upsert\<close> that this loop makes, in order.\<close>

fun upsert_keys :: "('e, 'st, 's) services \<Rightarrow> nat \<Rightarrow> message list \<Rightarrow> string list" where
  "upsert_keys S n [] = []"
| "upsert_keys S n (m # ms) =
     (case id_or_uuid S n m of (key, n') \<Rightarrow> key # upsert_keys S n' ms)"

text \<open>
  \<^verbatim>\<open>(m.text ?? m.content ?? "").split("\n")[0]?.slice(0, 80) || ""\<close> (line 18): indexing
  an array at 0 gives \<^verbatim>\<open>undefined\<close> when it is empty, \<^verbatim>\<open>?.\<close> passes \<^verbatim>\<open>undefined\<close> on,
  and \<^verbatim>\<open>||\<close> replaces \<^verbatim>\<open>undefined\<close> and the empty string by \<^verbatim>\<open>""\<close>.
\<close>

definition seed_title_of :: "message \<Rightarrow> string" where
  "seed_title_of m =
     (case (case split_nl (text_or_content m) of
              [] \<Rightarrow> None
            | l # _ \<Rightarrow> Some (take 80 l)) of
        None \<Rightarrow> []
      | Some s \<Rightarrow> (if s \<noteq> [] then s else []))"

text \<open>Lines 16 to 20: filter by role, map to seeds, drop falsy titles, slice(0, 12).\<close>

definition seeds :: "message list \<Rightarrow> seed list" where
  "seeds messages =
     take 12
       (filter (\<lambda>sd. seed_title sd \<noteq> [])
          (map (\<lambda>m. \<lparr>seed_id = msg_id m, seed_title = seed_title_of m\<rparr>)
             (filter (\<lambda>m. msg_role m = ''user'') messages)))"

text \<open>Lines 24 to 26, the body of the loop over the seeds, on the store \<open>st\<close>.\<close>

definition candidate :: "('e, 'st, 's) services \<Rightarrow> 'st \<Rightarrow> seed \<Rightarrow> topic" where
  "candidate S st sd =
     (let hits = query S st (embed S (seed_title sd)) 50;
          cids = new_Set (seed_id sd # map (\<lambda>h. Some (hit_id h)) hits)
      in \<lparr>title = seed_title sd, ids = cids\<rparr>)"

text \<open>
  Lines 32 to 36: \<^verbatim>\<open>topic.ids.filter\<close> with the callback that reads and extends the
  shared set \<^verbatim>\<open>assigned\<close>. The result is the kept ids and the set afterwards.
\<close>

fun claim_ids :: "'a list \<Rightarrow> 'a list \<Rightarrow> 'a list \<times> 'a list" where
  "claim_ids assigned [] = ([], assigned)"
| "claim_ids assigned (x # xs) =
     (if x \<in> set assigned then claim_ids assigned xs
      else (case claim_ids (set_add assigned x) xs of
              (kept, assigned') \<Rightarrow> (x # kept, assigned')))"

text \<open>Lines 30 to 37: \<^verbatim>\<open>topics.map\<close>, left to right, threading \<^verbatim>\<open>assigned\<close>.\<close>

fun claim_topics :: "string option list \<Rightarrow> topic list \<Rightarrow> topic list \<times> string option list" where
  "claim_topics assigned [] = ([], assigned)"
| "claim_topics assigned (t # ts) =
     (case claim_ids assigned (ids t) of
        (kept, assigned') \<Rightarrow>
          (case claim_topics assigned' ts of
             (rest, assigned'') \<Rightarrow> (\<lparr>title = title t, ids = kept\<rparr> # rest, assigned'')))"

text \<open>Line 7: the messages that are embedded and stored.\<close>

definition relevant :: "message list \<Rightarrow> message list" where
  "relevant messages = filter (\<lambda>m. msg_role m \<noteq> ''tool'') messages"

text \<open>The array \<^verbatim>\<open>topics\<close> after the loop of lines 23 to 27, for a run started on store \<open>st\<close>.\<close>

definition candidates :: "('e, 'st, 's) services \<Rightarrow> 'st \<Rightarrow> message list \<Rightarrow> topic list" where
  "candidates S st messages =
     (let st' = fst (ingest S 0 st (relevant messages))
      in map (candidate S st') (seeds messages))"

text \<open>
  The value \<^verbatim>\<open>cluster(messages)\<close> resolves to, when \<^verbatim>\<open>MemStore\<close> holds \<open>st\<close> at the call.
  Line 29 starts \<^verbatim>\<open>assigned\<close> empty.
\<close>

definition cluster :: "('e, 'st, 's) services \<Rightarrow> 'st \<Rightarrow> message list \<Rightarrow> topic list" where
  "cluster S st messages = fst (claim_topics [] (candidates S st messages))"

text \<open>What \<^verbatim>\<open>MemStore\<close> holds after the call: \<^verbatim>\<open>cluster\<close> writes it in lines 8 to 14 only.\<close>

definition store_after :: "('e, 'st, 's) services \<Rightarrow> 'st \<Rightarrow> message list \<Rightarrow> 'st" where
  "store_after S st messages = fst (ingest S 0 st (relevant messages))"

text \<open>
  The contents of \<^verbatim>\<open>assigned\<close> when the callback of line 32 starts on the topic at
  index \<open>i\<close>: the set after the topics before it have been filtered.
\<close>

definition assigned_before ::
  "('e, 'st, 's) services \<Rightarrow> 'st \<Rightarrow> message list \<Rightarrow> nat \<Rightarrow> string option list" where
  "assigned_before S st messages i = snd (claim_topics [] (take i (candidates S st messages)))"

section \<open>The seed extractor in the specification's words\<close>

text \<open>
  Section 4.3 of the specification: the title is the "first line of normalized text,
  truncated to 80 characters"; a message qualifies when its role is \<^verbatim>\<open>user\<close> and this
  title is not empty. \<open>qualifying_seeds\<close> is the sequence of seeds of the qualifying
  messages in original order, before the cap of 12. These definitions follow the
  specification, not the code; \<open>seeds\<close> above is the code.
\<close>

definition first_line :: "string \<Rightarrow> string" where
  "first_line s = takeWhile (\<lambda>c. c \<noteq> CHR 0x0A) s"

definition spec_title :: "message \<Rightarrow> string" where
  "spec_title m = take 80 (first_line (text_or_content m))"

definition qualifying :: "message \<Rightarrow> bool" where
  "qualifying m \<longleftrightarrow> msg_role m = ''user'' \<and> spec_title m \<noteq> []"

definition qualifying_seeds :: "message list \<Rightarrow> seed list" where
  "qualifying_seeds messages =
     map (\<lambda>m. \<lparr>seed_id = msg_id m, seed_title = spec_title m\<rparr>) (filter qualifying messages)"

section \<open>The vector index and the flow builder, from the specification\<close>

text \<open>
  Modelled from the spec: \<^verbatim>\<open>semantic/memStore.js\<close> is not among the sources. A stored
  record is \<open>(id, embedding, metadata)\<close>, keyed uniquely by id (spec, section 3); the
  index is the list of its records in insertion order.
\<close>

record 'e vrecord =
  rec_id :: string
  rec_vec :: 'e
  rec_meta :: meta

text \<open>
  Modelled from the spec: \<^verbatim>\<open>upsert(id, embedding, metadata)\<close> of section 4.2, which
  "overwrites any existing record for id"; a new id is appended. An overwritten record
  keeps its place in the insertion order.
\<close>

definition MemStore_upsert :: "'e vrecord list \<Rightarrow> string \<Rightarrow> 'e \<Rightarrow> meta \<Rightarrow> 'e vrecord list" where
  "MemStore_upsert st i v md =
     (let r = \<lparr>rec_id = i, rec_vec = v, rec_meta = md\<rparr>
      in if i \<in> set (map rec_id st) then map (\<lambda>old. if rec_id old = i then r else old) st
         else st @ [r])"

text \<open>
  Modelled from the spec: the ranking of section 4.2, "sorted by descending score; ties
  are broken by ascending insertion order". \<open>rank_insert\<close> puts a hit behind every hit
  whose score is at least its own; \<open>rank\<close> inserts the hits in insertion order.
\<close>

fun rank_insert :: "('s::linorder) hit \<Rightarrow> 's hit list \<Rightarrow> 's hit list" where
  "rank_insert h [] = [h]"
| "rank_insert h (x # xs) =
     (if hit_score x < hit_score h then h # x # xs else x # rank_insert h xs)"

definition rank :: "('s::linorder) hit list \<Rightarrow> 's hit list" where
  "rank hs = foldl (\<lambda>acc h. rank_insert h acc) [] hs"

text \<open>
  Modelled from the spec: \<^verbatim>\<open>query(embedding, k)\<close> of section 4.2: the \<open>k\<close> best
  stored records under the similarity \<open>sim\<close>, the empty sequence when \<open>k \<le> 0\<close> or
  nothing is stored. The similarity metric is a parameter.
\<close>

definition MemStore_query ::
  "('e \<Rightarrow> 'e \<Rightarrow> 's::linorder) \<Rightarrow> 'e vrecord list \<Rightarrow> 'e \<Rightarrow> int \<Rightarrow> 's hit list" where
  "MemStore_query sim st q k =
     (if k \<le> 0 then []
      else take (nat k)
             (rank (map (\<lambda>r. \<lparr>hit_id = rec_id r, hit_score = sim q (rec_vec r)\<rparr>) st)))"

text \<open>
  Modelled from the spec: the services of \<^verbatim>\<open>cluster\<close> with the index of section 4.2
  behind them, for an embedder \<open>emb\<close>, a similarity \<open>sim\<close> and a supply \<open>gen\<close> of
  generated identifiers.
\<close>

definition MemStore ::
  "(string \<Rightarrow> 'e) \<Rightarrow> ('e \<Rightarrow> 'e \<Rightarrow> 's::linorder) \<Rightarrow> (nat \<Rightarrow> string) \<Rightarrow>
   ('e, 'e vrecord list, 's) services" where
  "MemStore emb sim gen =
     \<lparr>embed = emb, upsert = MemStore_upsert, query = MemStore_query sim, randomUUID = gen\<rparr>"

text \<open>
  Modelled from the spec: a flow and \<^verbatim>\<open>buildFlows\<close> of section 4.5
  (\<^verbatim>\<open>flows/build.js\<close> is not among the sources): one flow per topic in order, with a
  generated identifier, the topic's title, a single node carrying the topic's id list,
  no deliverables and placeholder metrics \<open>pm\<close>. \<open>gen n\<close> is the \<open>n\<close>-th identifier
  generated.
\<close>

record node =
  msgIds :: "string option list"

record ('d, 'm) flow =
  flow_id :: string
  flow_title :: string
  nodes :: "node list"
  deliverables :: "'d list"
  metrics :: 'm

fun buildFlows :: "(nat \<Rightarrow> string) \<Rightarrow> 'm \<Rightarrow> nat \<Rightarrow> topic list \<Rightarrow> ('d, 'm) flow list" where
  "buildFlows gen pm n [] = []"
| "buildFlows gen pm n (t # ts) =
     \<lparr>flow_id = gen n, flow_title = title t, nodes = [\<lparr>msgIds = ids t\<rparr>],
      deliverables = [], metrics = pm\<rparr> # buildFlows gen pm (Suc n) ts"

section \<open>A small instance for evaluation\<close>

text \<open>
  An embedder that maps a text to its length, the similarity "minus the distance", and
  two supplies of generated identifiers that differ in their first character.
\<close>

definition length_embed :: "string \<Rightarrow> int" where
  "length_embed t = int (length t)"

definition closeness :: "int \<Rightarrow> int \<Rightarrow> int" where
  "closeness a b = - \<bar>a - b\<bar>"

definition uuid_supply :: "char \<Rightarrow> nat \<Rightarrow> string" where
  "uuid_supply c n = c # replicate (Suc n) (CHR ''-'')"

definition run_a :: "(int, int vrecord list, int) services" where
  "run_a = MemStore length_embed closeness (uuid_supply (CHR ''a''))"

definition run_b :: "(int, int vrecord list, int) services" where
  "run_b = MemStore length_embed closeness (uuid_supply (CHR ''b''))"

definition user_msg :: "string option \<Rightarrow> string \<Rightarrow> message" where
  "user_msg i t = \<lparr>msg_id = i, msg_role = ''user'', msg_text = Some t, msg_content = None\<rparr>"

text \<open>The scenario of section 8 of the specification.\<close>

definition login_chat :: "message list" where
  "login_chat =
     [user_msg (Some ''1'') ''Fix login bug'',
      \<lparr>msg_id = Some ''2'', msg_role = ''assistant'', msg_text = Some ''Here's a fix'',
       msg_content = None\<rparr>,
      user_msg (Some ''3'') ''Fix login bug again'']"

text \<open>A user message without id, alone, after a message with an id, and twice.\<close>

definition anon_chat :: "message list" where
  "anon_chat = [user_msg None ''hi'']"

definition mixed_chat :: "message list" where
  "mixed_chat = [user_msg (Some ''1'') ''alpha'', user_msg None ''beta'']"

definition two_anon_chat :: "message list" where
  "two_anon_chat = [user_msg None ''a'', user_msg None ''b'']"

text \<open>
  Fifteen user messages and one assistant message. The \<open>n\<close>-th user message has the id
  \<open>n\<close> times \<^verbatim>\<open>i\<close> and a first line of \<open>n\<close> times \<^verbatim>\<open>t\<close>, followed by a second
  line; the first has a line of 100 characters, the second an empty first line.
\<close>

definition numbered_user :: "nat \<Rightarrow> message" where
  "numbered_user n =
     user_msg (Some (replicate n (CHR ''i''))) (replicate n (CHR ''t'') @ CHR 0x0A # ''more'')"

definition cap_chat :: "message list" where
  "cap_chat =
     \<lparr>msg_id = Some ''r'', msg_role = ''assistant'', msg_text = None, msg_content = Some ''reply''\<rparr> #
     map numbered_user (100 # [0..<14])"

section \<open>Properties of the set model and of the claim pass\<close>

lemma set_set_add: "set (set_add s x) = insert x (set s)"
  by (auto simp: set_add_def)

lemma distinct_set_add: "distinct s \<Longrightarrow> distinct (set_add s x)"
  by (simp add: set_add_def)

lemma foldl_set_add_set: "set (foldl set_add acc xs) = set acc \<union> set xs"
  by (induction xs arbitrary: acc) (auto simp: set_set_add)

lemma foldl_set_add_distinct: "distinct acc \<Longrightarrow> distinct (foldl set_add acc xs)"
  by (induction xs arbitrary: acc) (auto simp: distinct_set_add)

lemma foldl_set_add_prefix: "\<exists>ys. foldl set_add acc xs = acc @ ys"
proof (induction xs arbitrary: acc)
  case Nil
  show ?case by simp
next
  case (Cons x xs)
  obtain ys where "foldl set_add (set_add acc x) xs = set_add acc x @ ys"
    using Cons.IH by blast
  moreover obtain zs where "set_add acc x = acc @ zs"
    by (cases "x \<in> set acc") (simp_all add: set_add_def)
  ultimately show ?case by simp
qed

lemma foldl_set_add_length: "length (foldl set_add acc xs) \<le> length acc + length xs"
proof (induction xs arbitrary: acc)
  case Nil
  show ?case by simp
next
  case (Cons x xs)
  have "length (foldl set_add (set_add acc x) xs) \<le> length (set_add acc x) + length xs"
    by (rule Cons.IH)
  also have "length (set_add acc x) \<le> Suc (length acc)"
    by (simp add: set_add_def)
  finally show ?case by simp
qed

lemma set_new_Set: "set (new_Set xs) = set xs"
  by (simp add: new_Set_def foldl_set_add_set)

lemma distinct_new_Set: "distinct (new_Set xs)"
  by (simp add: new_Set_def foldl_set_add_distinct)

lemma length_new_Set: "length (new_Set xs) \<le> length xs"
  using foldl_set_add_length [of "[]" xs] by (simp add: new_Set_def)

lemma new_Set_Cons: "\<exists>ys. new_Set (x # xs) = x # ys"
  using foldl_set_add_prefix [of "[x]" xs] by (simp add: new_Set_def set_add_def)

lemma claim_ids_snd: "set (snd (claim_ids A xs)) = set A \<union> set xs"
  by (induction xs arbitrary: A) (auto simp: set_set_add split_beta)

lemma claim_ids_fst_set: "set (fst (claim_ids A xs)) = set xs - set A"
  by (induction xs arbitrary: A) (auto simp: set_set_add split_beta)

lemma claim_ids_distinct: "distinct (fst (claim_ids A xs))"
  by (induction xs arbitrary: A) (auto simp: set_set_add claim_ids_fst_set split_beta)

lemma claim_ids_filter:
  "distinct xs \<Longrightarrow> fst (claim_ids A xs) = filter (\<lambda>x. x \<notin> set A) xs"
proof (induction xs arbitrary: A)
  case Nil
  show ?case by simp
next
  case (Cons x xs)
  then have "filter (\<lambda>y. y \<notin> set (set_add A x)) xs = filter (\<lambda>y. y \<notin> set A) xs"
    by (auto simp: set_set_add intro!: filter_cong)
  with Cons show ?case by (auto simp: split_beta)
qed

lemma claim_ids_length: "length (fst (claim_ids A xs)) \<le> length xs"
  by (induction xs arbitrary: A) (auto simp: split_beta le_SucI)

lemma claim_topics_length: "length (fst (claim_topics A ts)) = length ts"
  by (induction ts arbitrary: A) (auto simp: split_beta)

lemma claim_topics_titles: "map title (fst (claim_topics A ts)) = map title ts"
  by (induction ts arbitrary: A) (auto simp: split_beta)

lemma claim_topics_snd:
  "set (snd (claim_topics A ts)) = set A \<union> (\<Union>t\<in>set ts. set (ids t))"
proof (induction ts arbitrary: A)
  case Nil
  show ?case by simp
next
  case (Cons t ts)
  show ?case
    using Cons.IH [of "snd (claim_ids A (ids t))"] claim_ids_snd [of A "ids t"]
    by (auto simp: split_beta)
qed

lemma claim_topics_ids_set:
  "set (concat (map ids (fst (claim_topics A ts)))) = (\<Union>t\<in>set ts. set (ids t)) - set A"
proof (induction ts arbitrary: A)
  case Nil
  show ?case by simp
next
  case (Cons t ts)
  show ?case
    using Cons.IH [of "snd (claim_ids A (ids t))"] claim_ids_snd [of A "ids t"]
      claim_ids_fst_set [of A "ids t"]
    by (auto simp: split_beta)
qed

lemma claim_topics_distinct: "distinct (concat (map ids (fst (claim_topics A ts))))"
proof (induction ts arbitrary: A)
  case Nil
  show ?case by simp
next
  case (Cons t ts)
  show ?case
    using Cons.IH [of "snd (claim_ids A (ids t))"] claim_ids_snd [of A "ids t"]
      claim_ids_fst_set [of A "ids t"] claim_ids_distinct [of A "ids t"]
      claim_topics_ids_set [of "snd (claim_ids A (ids t))" ts]
    by (auto simp: split_beta)
qed

lemma claim_topics_nth:
  "i < length ts \<Longrightarrow>
   ids (fst (claim_topics A ts) ! i) =
     fst (claim_ids (snd (claim_topics A (take i ts))) (ids (ts ! i)))"
proof (induction ts arbitrary: A i)
  case Nil
  then show ?case by simp
next
  case (Cons t ts)
  show ?case
  proof (cases i)
    case 0
    then show ?thesis by (simp add: split_beta)
  next
    case (Suc k)
    with Cons.prems have "k < length ts" by simp
    from Cons.IH [OF this, of "snd (claim_ids A (ids t))"] Suc
    show ?thesis by (simp add: split_beta)
  qed
qed

lemma claim_topics_take_fst:
  "fst (claim_topics A (take i ts)) = take i (fst (claim_topics A ts))"
proof (induction ts arbitrary: A i)
  case Nil
  show ?case by simp
next
  case (Cons t ts)
  show ?case
  proof (cases i)
    case 0
    then show ?thesis by simp
  next
    case (Suc k)
    from Cons.IH [of "snd (claim_ids A (ids t))" k] Suc
    show ?thesis by (simp add: split_beta)
  qed
qed

lemma new_Set_snoc: "new_Set (xs @ [x]) = set_add (new_Set xs) x"
  by (simp add: new_Set_def)

lemma new_Set_first_occurrences: "new_Set xs = rev (remdups (rev xs))"
proof (induction xs rule: rev_induct)
  case Nil
  show ?case by (simp add: new_Set_def)
next
  case (snoc x xs)
  then show ?case
    by (simp add: new_Set_snoc set_add_def)
qed

lemma distinct_concat_nth_disjoint:
  "distinct (concat xss) \<Longrightarrow> i < j \<Longrightarrow> j < length xss \<Longrightarrow> set (xss ! i) \<inter> set (xss ! j) = {}"
proof (induction xss arbitrary: i j)
  case Nil
  then show ?case by simp
next
  case (Cons xs xss)
  from Cons.prems obtain k where j: "j = Suc k" by (cases j) auto
  show ?case
  proof (cases i)
    case 0
    from Cons.prems j have "xss ! k \<in> set xss" by simp
    with Cons.prems(1) 0 j show ?thesis by auto
  next
    case (Suc l)
    with Cons.prems j have "distinct (concat xss)" "l < k" "k < length xss" by auto
    from Cons.IH [OF this] Suc j show ?thesis by simp
  qed
qed

section \<open>Properties of one run of \<^verbatim>\<open>cluster\<close>\<close>

lemma split_nl_first: "\<exists>ls. split_nl s = first_line s # ls"
proof (induction s)
  case Nil
  show ?case by (simp add: first_line_def)
next
  case (Cons c cs)
  then obtain ls where "split_nl cs = first_line cs # ls" by blast
  then show ?case by (simp add: first_line_def)
qed

lemma seed_title_of_spec: "seed_title_of m = spec_title m"
proof -
  obtain ls where "split_nl (text_or_content m) = first_line (text_or_content m) # ls"
    using split_nl_first by blast
  then show ?thesis by (simp add: seed_title_of_def spec_title_def)
qed

lemma seeds_take: "seeds messages = take 12 (qualifying_seeds messages)"
proof -
  have "qualifying = (\<lambda>m. msg_role m = ''user'' \<and> spec_title m \<noteq> [])"
    by (simp add: qualifying_def fun_eq_iff)
  then show ?thesis
    by (simp add: seeds_def qualifying_seeds_def filter_map comp_def seed_title_of_spec)
qed

lemma seeds_from_user_messages:
  "sd \<in> set (seeds messages) \<Longrightarrow>
   \<exists>m\<in>set messages. msg_role m = ''user'' \<and> seed_id sd = msg_id m \<and> seed_title sd = seed_title_of m"
proof -
  assume "sd \<in> set (seeds messages)"
  then have "sd \<in> set (filter (\<lambda>sd. seed_title sd \<noteq> [])
          (map (\<lambda>m. \<lparr>seed_id = msg_id m, seed_title = seed_title_of m\<rparr>)
             (filter (\<lambda>m. msg_role m = ''user'') messages)))"
    unfolding seeds_def by (rule in_set_takeD)
  then show ?thesis by auto
qed

lemma upsert_keys_length: "length (upsert_keys S n ms) = length ms"
  by (induction ms arbitrary: n) (auto simp: split_beta)

lemma upsert_keys_given_id:
  "m \<in> set ms \<Longrightarrow> msg_id m = Some i \<Longrightarrow> i \<noteq> [] \<Longrightarrow> i \<in> set (upsert_keys S n ms)"
proof (induction ms arbitrary: n)
  case Nil
  then show ?case by simp
next
  case (Cons a ms)
  show ?case
  proof (cases "m = a")
    case True
    with Cons.prems show ?thesis by (simp add: split_beta id_or_uuid_def)
  next
    case False
    with Cons.prems have "m \<in> set ms" by simp
    from Cons.IH [OF this Cons.prems(2,3)] show ?thesis by (simp add: split_beta)
  qed
qed

lemma upsert_keys_absent_id:
  "p < length ms \<Longrightarrow> msg_id (ms ! p) = None \<or> msg_id (ms ! p) = Some [] \<Longrightarrow>
   upsert_keys S n ms ! p =
     randomUUID S (n + length (filter (\<lambda>m. msg_id m = None \<or> msg_id m = Some []) (take p ms)))"
proof (induction ms arbitrary: n p)
  case Nil
  then show ?case by simp
next
  case (Cons m ms)
  show ?case
  proof (cases p)
    case 0
    with Cons.prems show ?thesis
      by (auto simp: split_beta id_or_uuid_def)
  next
    case (Suc k)
    with Cons.prems have k: "k < length ms" "msg_id (ms ! k) = None \<or> msg_id (ms ! k) = Some []"
      by simp_all
    show ?thesis
      using Cons.IH [OF k, of "snd (id_or_uuid S n m)"] Suc
      by (cases "msg_id m") (auto simp: split_beta id_or_uuid_def)
  qed
qed

lemma ingest_given_ids:
  assumes "embed S1 = embed S2" and "upsert S1 = upsert S2"
    and "\<forall>m\<in>set ms. msg_id m \<noteq> None \<and> msg_id m \<noteq> Some []"
  shows "ingest S1 n st ms = ingest S2 n st ms"
  using assms(3)
proof (induction ms arbitrary: st)
  case Nil
  show ?case by simp
next
  case (Cons m ms)
  then obtain i where i: "msg_id m = Some i" "i \<noteq> []"
    by (cases "msg_id m") auto
  then have "id_or_uuid S1 n m = (i, n)" "id_or_uuid S2 n m = (i, n)"
    by (simp_all add: id_or_uuid_def)
  with Cons assms(1,2) show ?case by simp
qed

lemma candidates_length: "length (candidates S st messages) = length (seeds messages)"
  by (simp add: candidates_def)

lemma candidates_nth:
  "i < length (seeds messages) \<Longrightarrow>
   candidates S st messages ! i = candidate S (store_after S st messages) (seeds messages ! i)"
  by (simp add: candidates_def store_after_def)

lemma candidate_ids_mem: "seed_id sd \<in> set (ids (candidate S st' sd))"
  by (simp add: candidate_def set_new_Set)

lemma candidate_ids_set:
  "set (ids (candidate S st' sd)) =
     insert (seed_id sd) ((\<lambda>h. Some (hit_id h)) ` set (query S st' (embed S (seed_title sd)) 50))"
  by (simp add: candidate_def set_new_Set)

lemma candidate_ids_length:
  "length (ids (candidate S st' sd)) \<le> Suc (length (query S st' (embed S (seed_title sd)) 50))"
  using length_new_Set [of "seed_id sd # map (\<lambda>h. Some (hit_id h)) (query S st' (embed S (seed_title sd)) 50)"]
  by (simp add: candidate_def)

lemma candidate_no_absent_hit:
  "None \<in> set (ids (candidate S st' sd)) \<longleftrightarrow> seed_id sd = None"
  by (auto simp: candidate_ids_set)

lemma candidate_head: "\<exists>rest. ids (candidate S st' sd) = seed_id sd # rest"
  by (simp add: candidate_def new_Set_Cons)

lemma candidates_distinct:
  "i < length (seeds messages) \<Longrightarrow> distinct (ids (candidates S st messages ! i))"
  by (simp add: candidates_nth candidate_def distinct_new_Set)

lemma cluster_length: "length (cluster S st messages) = length (seeds messages)"
  by (simp add: cluster_def claim_topics_length candidates_length)

lemma cluster_nth_ids:
  "i < length (seeds messages) \<Longrightarrow>
   ids (cluster S st messages ! i) =
     fst (claim_ids (assigned_before S st messages i) (ids (candidates S st messages ! i)))"
  by (simp add: cluster_def assigned_before_def claim_topics_nth candidates_length)

lemma cluster_take: "take i (cluster S st messages) = fst (claim_topics [] (take i (candidates S st messages)))"
  by (simp add: cluster_def claim_topics_take_fst)

lemma cluster_ids_set:
  "set (concat (map ids (cluster S st messages))) =
     (\<Union>sd\<in>set (seeds messages). set (ids (candidate S (store_after S st messages) sd)))"
  using claim_topics_ids_set [of "[]" "candidates S st messages"]
  by (simp add: cluster_def candidates_def store_after_def)

lemma assigned_before_set:
  "i \<le> length (seeds messages) \<Longrightarrow>
   set (assigned_before S st messages i) = (\<Union>j\<in>{..<i}. set (ids (candidates S st messages ! j)))"
proof -
  assume le: "i \<le> length (seeds messages)"
  have "set (take i (candidates S st messages)) = (\<lambda>j. candidates S st messages ! j) ` {..<i}"
    using le nth_image [of i "candidates S st messages"]
    by (simp add: candidates_length lessThan_atLeast0)
  then show ?thesis
    by (simp add: assigned_before_def claim_topics_snd)
qed

lemma assigned_before_claimed:
  assumes "i \<le> length (seeds messages)"
  shows "set (assigned_before S st messages i) = (\<Union>j\<in>{..<i}. set (ids (cluster S st messages ! j)))"
proof -
  have "set (assigned_before S st messages i) =
      set (concat (map ids (fst (claim_topics [] (take i (candidates S st messages))))))"
    unfolding claim_topics_ids_set by (simp add: assigned_before_def claim_topics_snd)
  also have "\<dots> = (\<Union>t\<in>set (take i (cluster S st messages)). set (ids t))"
    by (simp add: cluster_take)
  also have "set (take i (cluster S st messages)) = (\<lambda>j. cluster S st messages ! j) ` {..<i}"
    using assms nth_image [of i "cluster S st messages"]
    by (simp add: cluster_length lessThan_atLeast0)
  finally show ?thesis by simp
qed

text \<open>
  When the id of every seed is a key under which line 10 stored a message of this run,
  and every hit of every seed is such a key too, the topics together hold at most as
  many ids as there are relevant messages.
\<close>

lemma ids_within_upsert_keys:
  assumes stored: "\<forall>sd\<in>set (seeds messages).
      \<forall>h\<in>set (query S (store_after S st messages) (embed S (seed_title sd)) 50).
        hit_id h \<in> set (upsert_keys S 0 (relevant messages))"
    and keyed: "\<forall>sd\<in>set (seeds messages).
      seed_id sd \<in> Some ` set (upsert_keys S 0 (relevant messages))"
  shows "length (concat (map ids (cluster S st messages))) \<le> length (relevant messages)"
proof -
  let ?K = "set (upsert_keys S 0 (relevant messages))"
  let ?out = "concat (map ids (cluster S st messages))"
  have "set ?out \<subseteq> Some ` ?K"
    unfolding cluster_ids_set candidate_ids_set using stored keyed by auto
  then have "card (set ?out) \<le> card (Some ` ?K)"
    by (simp add: card_mono)
  also have "\<dots> \<le> card ?K"
    by (simp add: card_image_le)
  also have "\<dots> \<le> length (upsert_keys S 0 (relevant messages))"
    by (rule card_length)
  finally have "card (set ?out) \<le> length (relevant messages)"
    by (simp add: upsert_keys_length)
  moreover have "distinct ?out"
    by (simp add: cluster_def claim_topics_distinct)
  then have "card (set ?out) = length ?out"
    by (rule distinct_card)
  ultimately show ?thesis
    by (simp only:)
qed

text \<open>A seed whose id is present and not the empty string has such a key as its id.\<close>

lemma given_seed_id_is_key:
  assumes "sd \<in> set (seeds messages)" and "seed_id sd = Some i" and "i \<noteq> []"
  shows "seed_id sd \<in> Some ` set (upsert_keys S 0 (relevant messages))"
proof -
  from seeds_from_user_messages [OF assms(1)] obtain m
    where m: "m \<in> set messages" "msg_role m = ''user''" "seed_id sd = msg_id m"
    by blast
  from m(1,2) have "m \<in> set (relevant messages)"
    by (simp add: relevant_def)
  moreover from m(3) assms(2) have "msg_id m = Some i"
    by simp
  ultimately have "i \<in> set (upsert_keys S 0 (relevant messages))"
    using assms(3) by (rule upsert_keys_given_id)
  with assms(2) show ?thesis by simp
qed

section \<open>Properties of the specification's index\<close>

lemma rank_insert_set: "set (rank_insert h xs) = insert h (set xs)"
  by (induction xs) auto

lemma rank_fold_set: "set (foldl (\<lambda>acc h. rank_insert h acc) acc hs) = set acc \<union> set hs"
  by (induction hs arbitrary: acc) (auto simp: rank_insert_set)

lemma rank_set: "set (rank hs) = set hs"
  by (simp add: rank_def rank_fold_set)

lemma rank_insert_descending:
  "sorted_wrt (\<lambda>a b. hit_score b \<le> hit_score a) xs \<Longrightarrow>
   sorted_wrt (\<lambda>a b. hit_score b \<le> hit_score a) (rank_insert h xs)"
  by (induction xs) (auto simp: rank_insert_set)

lemma rank_fold_descending:
  "sorted_wrt (\<lambda>a b. hit_score b \<le> hit_score a) acc \<Longrightarrow>
   sorted_wrt (\<lambda>a b. hit_score b \<le> hit_score a) (foldl (\<lambda>acc h. rank_insert h acc) acc hs)"
  by (induction hs arbitrary: acc) (auto simp: rank_insert_descending)

lemma MemStore_query_descending:
  "sorted_wrt (\<lambda>a b. hit_score b \<le> hit_score a) (MemStore_query sim st q k)"
  by (simp add: MemStore_query_def rank_def rank_fold_descending sorted_wrt_take)

lemma MemStore_query_length: "length (MemStore_query sim st q k) \<le> nat k"
  by (simp add: MemStore_query_def)

lemma MemStore_query_ids: "hit_id ` set (MemStore_query sim st q k) \<subseteq> rec_id ` set st"
proof -
  have "set (MemStore_query sim st q k) \<subseteq>
      set (map (\<lambda>r. \<lparr>hit_id = rec_id r, hit_score = sim q (rec_vec r)\<rparr>) st)"
    by (auto simp: MemStore_query_def rank_set dest!: in_set_takeD split: if_splits)
  then show ?thesis by auto
qed

lemma MemStore_upsert_map_ids:
  "map rec_id (MemStore_upsert st i v md) =
     (if i \<in> set (map rec_id st) then map rec_id st else map rec_id st @ [i])"
proof -
  have "map (\<lambda>old. rec_id (if rec_id old = i then \<lparr>rec_id = i, rec_vec = v, rec_meta = md\<rparr> else old)) st =
      map rec_id st"
    by (rule map_cong) simp_all
  then show ?thesis
    by (simp add: MemStore_upsert_def Let_def comp_def)
qed

lemma MemStore_upsert_ids: "rec_id ` set (MemStore_upsert st i v md) = insert i (rec_id ` set st)"
proof -
  have "set (map rec_id (MemStore_upsert st i v md)) = insert i (set (map rec_id st))"
    unfolding MemStore_upsert_map_ids by auto
  then show ?thesis by simp
qed

lemma MemStore_ingest_ids:
  "rec_id ` set (fst (ingest (MemStore emb sim gen) n st ms)) =
     rec_id ` set st \<union> set (upsert_keys (MemStore emb sim gen) n ms)"
proof (induction ms arbitrary: n st)
  case Nil
  show ?case by simp
next
  case (Cons m ms)
  have u: "upsert (MemStore emb sim gen) = MemStore_upsert"
    by (simp add: MemStore_def)
  show ?case
    by (simp add: split_beta Let_def Cons.IH u MemStore_upsert_ids)
qed

lemma MemStore_fresh_hits_upserted:
  assumes "h \<in> set (query (MemStore emb sim gen) (store_after (MemStore emb sim gen) [] messages) q k)"
  shows "hit_id h \<in> set (upsert_keys (MemStore emb sim gen) 0 (relevant messages))"
proof -
  have "query (MemStore emb sim gen) = MemStore_query sim"
    by (simp add: MemStore_def)
  with assms MemStore_query_ids [of sim "store_after (MemStore emb sim gen) [] messages" q k]
  have "hit_id h \<in> rec_id ` set (store_after (MemStore emb sim gen) [] messages)"
    by auto
  then show ?thesis
    by (simp add: store_after_def MemStore_ingest_ids)
qed

section \<open>The instance, evaluated\<close>

lemma seeds_login_chat:
  "seeds login_chat =
     [\<lparr>seed_id = Some ''1'', seed_title = ''Fix login bug''\<rparr>,
      \<lparr>seed_id = Some ''3'', seed_title = ''Fix login bug again''\<rparr>]"
  by code_simp

lemma cluster_login_chat:
  "cluster run_a [] login_chat =
     [\<lparr>title = ''Fix login bug'', ids = [Some ''1'', Some ''2'', Some ''3'']\<rparr>,
      \<lparr>title = ''Fix login bug again'', ids = []\<rparr>]"
  by code_simp

lemma seeds_mixed_chat:
  "seeds mixed_chat =
     [\<lparr>seed_id = Some ''1'', seed_title = ''alpha''\<rparr>, \<lparr>seed_id = None, seed_title = ''beta''\<rparr>]"
  by code_simp

lemma candidates_mixed_chat:
  "candidates run_a [] mixed_chat =
     [\<lparr>title = ''alpha'', ids = [Some ''1'', Some ''a-'']\<rparr>,
      \<lparr>title = ''beta'', ids = [None, Some ''a-'', Some ''1'']\<rparr>]"
  by code_simp

lemma assigned_before_mixed_chat:
  "assigned_before run_a [] mixed_chat 1 = [Some ''1'', Some ''a-'']"
  by code_simp

lemma cluster_mixed_chat:
  "cluster run_a [] mixed_chat =
     [\<lparr>title = ''alpha'', ids = [Some ''1'', Some ''a-'']\<rparr>, \<lparr>title = ''beta'', ids = [None]\<rparr>]"
  by code_simp

lemma qualifying_cap_chat: "length (filter qualifying cap_chat) = 14"
  by code_simp

lemma seeds_cap_chat:
  "map seed_id (seeds cap_chat) =
     Some (replicate 100 (CHR ''i'')) # map (\<lambda>n. Some (replicate n (CHR ''i''))) [1..<12] \<and>
   map seed_title (seeds cap_chat) =
     replicate 80 (CHR ''t'') # map (\<lambda>n. replicate n (CHR ''t'')) [1..<12]"
  by code_simp

section \<open>The claims\<close>

subsection \<open>C1: the topics are pairwise disjoint\<close>

text \<open>
  C1. For every message list, every store and all services, the id lists of the topics
  that \<open>cluster\<close> returns share no id: the concatenation of all the lists has no
  repetition (so no id occurs twice in the whole output, also not within one topic), and
  the id sets of two different topics are disjoint.
\<close>

theorem cluster_topics_disjoint:
  "distinct (concat (map ids (cluster S st messages))) \<and>
   (\<forall>i j. i < j \<and> j < length (cluster S st messages) \<longrightarrow>
      set (ids (cluster S st messages ! i)) \<inter> set (ids (cluster S st messages ! j)) = {})"
proof -
  have d: "distinct (concat (map ids (cluster S st messages)))"
    by (simp add: cluster_def claim_topics_distinct)
  have "set (ids (cluster S st messages ! i)) \<inter> set (ids (cluster S st messages ! j)) = {}"
    if "i < j" "j < length (cluster S st messages)" for i j
    using distinct_concat_nth_disjoint [OF d, of i j] that by simp
  with d show ?thesis by blast
qed

text \<open>On the chat with one message with an id and one without, topics 0 and 1.\<close>

theorem cluster_topics_disjoint_witness:
  "distinct (concat (map ids (cluster run_a [] mixed_chat))) \<and>
   (0::nat) < 1 \<and> 1 < length (cluster run_a [] mixed_chat) \<and>
   set (ids (cluster run_a [] mixed_chat ! 0)) \<inter> set (ids (cluster run_a [] mixed_chat ! 1)) = {}"
proof -
  have h: "(0::nat) < 1 \<and> 1 < length (cluster run_a [] mixed_chat)"
    by (simp add: cluster_mixed_chat)
  with cluster_topics_disjoint [of run_a "[]" mixed_chat] show ?thesis by blast
qed

subsection \<open>C2: the coverage bound\<close>

text \<open>
  C2. The topics together hold at most as many ids as there are messages whose role is
  not \<^verbatim>\<open>tool\<close>. The code breaks this bound on a single user message without id, run on
  the empty index: line 10 stores the message under the key \<^verbatim>\<open>msg.id || randomUUID()\<close>,
  line 18 copies \<^verbatim>\<open>m.id\<close> into the seed, so the one topic lists the absent id beside
  the generated key of the same message, two ids for one message. The absent id stands in
  an array that line 22 declares as \<^verbatim>\<open>string[]\<close> and enters the set that line 29 declares
  as \<^verbatim>\<open>Set<string>\<close>.
\<close>

theorem coverage_bound_absent_id:
  "length (relevant anon_chat) = 1 \<and>
   upsert_keys run_a 0 (relevant anon_chat) = [''a-''] \<and>
   seeds anon_chat = [\<lparr>seed_id = None, seed_title = ''hi''\<rparr>] \<and>
   cluster run_a [] anon_chat = [\<lparr>title = ''hi'', ids = [None, Some ''a-'']\<rparr>] \<and>
   length (concat (map ids (cluster run_a [] anon_chat))) = 2"
  by code_simp

subsection \<open>C3: determinism\<close>

text \<open>
  C3, as stated, says that two runs on the same messages with the same embedder and a
  freshly reset index return the same topics, with no randomness in the algorithm. Line
  10 calls \<^verbatim>\<open>randomUUID\<close> for a message whose id is absent or empty: two runs on the
  empty index that differ only in the identifiers drawn return different id lists.
\<close>

theorem determinism_counterexample:
  "embed run_a = embed run_b \<and> upsert run_a = upsert run_b \<and> query run_a = query run_b \<and>
   cluster run_a [] anon_chat \<noteq> cluster run_b [] anon_chat"
proof -
  have "cluster run_a [] anon_chat \<noteq> cluster run_b [] anon_chat"
    by code_simp
  then show ?thesis
    by (simp add: run_a_def run_b_def MemStore_def)
qed

text \<open>
  C3, amended. When every message whose role is not \<^verbatim>\<open>tool\<close> has an id that is present
  and not the empty string, two runs with the same embedder and the same index
  operations, started on the same index contents, return the same topics, whatever
  \<^verbatim>\<open>randomUUID\<close> would return in either run.
\<close>

theorem determinism_given_ids:
  assumes "embed S1 = embed S2" and "upsert S1 = upsert S2" and "query S1 = query S2"
    and "\<forall>m\<in>set (relevant messages). msg_id m \<noteq> None \<and> msg_id m \<noteq> Some []"
  shows "cluster S1 st messages = cluster S2 st messages"
proof -
  have "ingest S1 0 st (relevant messages) = ingest S2 0 st (relevant messages)"
    using assms(1,2,4) by (rule ingest_given_ids)
  moreover have "candidate S1 = candidate S2"
    using assms(1,3) by (simp add: candidate_def fun_eq_iff)
  ultimately show ?thesis
    by (simp add: cluster_def candidates_def)
qed

text \<open>On the scenario of the specification, with the two supplies of identifiers.\<close>

theorem determinism_given_ids_witness:
  "embed run_a = embed run_b \<and> upsert run_a = upsert run_b \<and> query run_a = query run_b \<and>
   randomUUID run_a 0 \<noteq> randomUUID run_b 0 \<and>
   cluster run_a [] login_chat = cluster run_b [] login_chat"
proof -
  have e: "embed run_a = embed run_b" and u: "upsert run_a = upsert run_b"
    and q: "query run_a = query run_b"
    by (simp_all add: run_a_def run_b_def MemStore_def)
  have r: "randomUUID run_a 0 \<noteq> randomUUID run_b 0"
    by (simp add: run_a_def run_b_def MemStore_def uuid_supply_def)
  have g: "\<forall>m\<in>set (relevant login_chat). msg_id m \<noteq> None \<and> msg_id m \<noteq> Some []"
    by (simp add: relevant_def login_chat_def user_msg_def)
  from determinism_given_ids [OF e u q g, of "[]"] e u q r show ?thesis by blast
qed

subsection \<open>C4: the seeds are the first twelve qualifying user messages\<close>

text \<open>
  C4. The seeds computed by lines 16 to 20 are the first 12 elements of the sequence the
  specification describes: the messages with role \<^verbatim>\<open>user\<close> whose first line, cut to 80
  characters, is not empty, in original order, each with its id and that title. Messages
  with an empty title do not count against the cap: the number of seeds is the smaller of
  12 and the number of qualifying messages, so an input with more than 12 qualifying
  messages yields exactly 12 seeds.
\<close>

theorem seeds_first_twelve_qualifying:
  "seeds messages = take 12 (qualifying_seeds messages) \<and>
   length (seeds messages) = min 12 (length (filter qualifying messages)) \<and>
   (12 < length (filter qualifying messages) \<longrightarrow> length (seeds messages) = 12)"
  by (simp add: seeds_take qualifying_seeds_def)

text \<open>
  On sixteen messages of which fourteen qualify; the first seed's title is the first 80
  of 100 characters (\<open>seeds_cap_chat\<close>).
\<close>

theorem seeds_first_twelve_qualifying_witness:
  "12 < length (filter qualifying cap_chat) \<and> length (seeds cap_chat) = 12 \<and>
   seeds cap_chat = take 12 (qualifying_seeds cap_chat)"
proof -
  have h: "12 < length (filter qualifying cap_chat)"
    by (simp add: qualifying_cap_chat)
  with seeds_first_twelve_qualifying [of cap_chat] show ?thesis by blast
qed

subsection \<open>C5: the greedy claim\<close>

text \<open>
  C5. For the seed at index \<open>i\<close>: the candidate ids are the set built from the seed's id
  followed by the ids of the hits in the order \<^verbatim>\<open>query\<close> returned them, in insertion
  order without repetition (the first occurrences, \<open>new_Set_first_occurrences\<close>; the index
  of the specification returns the hits by descending score,
  \<open>MemStore_query_descending\<close>); the set \<^verbatim>\<open>assigned\<close> holds, when topic \<open>i\<close> is filtered,
  exactly the final members of topics \<open>0\<close> to \<open>i - 1\<close>; the final members of topic \<open>i\<close>
  are its candidates that are not in that set, in candidate order; and all of them are in
  \<^verbatim>\<open>assigned\<close> when topic \<open>i + 1\<close> is filtered.
\<close>

theorem greedy_claim_membership:
  assumes "i < length (seeds messages)"
  shows "ids (candidates S st messages ! i) =
           new_Set (seed_id (seeds messages ! i) #
             map (\<lambda>h. Some (hit_id h))
               (query S (store_after S st messages) (embed S (seed_title (seeds messages ! i))) 50)) \<and>
         set (assigned_before S st messages i) =
           (\<Union>j\<in>{..<i}. set (ids (cluster S st messages ! j))) \<and>
         ids (cluster S st messages ! i) =
           filter (\<lambda>x. x \<notin> set (assigned_before S st messages i))
             (ids (candidates S st messages ! i)) \<and>
         set (ids (cluster S st messages ! i)) \<subseteq> set (assigned_before S st messages (Suc i))"
proof -
  have c: "ids (candidates S st messages ! i) =
           new_Set (seed_id (seeds messages ! i) #
             map (\<lambda>h. Some (hit_id h))
               (query S (store_after S st messages) (embed S (seed_title (seeds messages ! i))) 50))"
    using assms by (simp add: candidates_nth candidate_def)
  have a: "set (assigned_before S st messages i) =
           (\<Union>j\<in>{..<i}. set (ids (cluster S st messages ! j)))"
    using assms by (simp add: assigned_before_claimed)
  have f: "ids (cluster S st messages ! i) =
           filter (\<lambda>x. x \<notin> set (assigned_before S st messages i))
             (ids (candidates S st messages ! i))"
    using assms by (simp add: cluster_nth_ids claim_ids_filter candidates_distinct)
  have "Suc i \<le> length (seeds messages)"
    using assms by simp
  then have "set (assigned_before S st messages (Suc i)) =
           (\<Union>j\<in>{..<Suc i}. set (ids (cluster S st messages ! j)))"
    by (rule assigned_before_claimed)
  then have n: "set (ids (cluster S st messages ! i)) \<subseteq> set (assigned_before S st messages (Suc i))"
    by auto
  from c a f n show ?thesis by blast
qed

text \<open>On the second seed of the chat with one message with an id and one without.\<close>

theorem greedy_claim_membership_witness:
  "1 < length (seeds mixed_chat) \<and>
   assigned_before run_a [] mixed_chat 1 = [Some ''1'', Some ''a-''] \<and>
   ids (candidates run_a [] mixed_chat ! 1) = [None, Some ''a-'', Some ''1''] \<and>
   set (assigned_before run_a [] mixed_chat 1) =
     (\<Union>j\<in>{..<1}. set (ids (cluster run_a [] mixed_chat ! j))) \<and>
   ids (cluster run_a [] mixed_chat ! 1) = [None] \<and>
   set (ids (cluster run_a [] mixed_chat ! 1)) \<subseteq> set (assigned_before run_a [] mixed_chat (Suc 1))"
proof -
  have h: "1 < length (seeds mixed_chat)"
    by (simp add: seeds_mixed_chat)
  have c: "ids (candidates run_a [] mixed_chat ! 1) = [None, Some ''a-'', Some ''1'']"
    by (simp add: candidates_mixed_chat)
  note g = greedy_claim_membership [OF h, of run_a "[]"]
  from g have "ids (cluster run_a [] mixed_chat ! 1) =
      filter (\<lambda>x. x \<notin> set (assigned_before run_a [] mixed_chat 1))
        (ids (candidates run_a [] mixed_chat ! 1))"
    by blast
  then have f: "ids (cluster run_a [] mixed_chat ! 1) = [None]"
    unfolding c assigned_before_mixed_chat by simp
  from g h c f assigned_before_mixed_chat show ?thesis by blast
qed

subsection \<open>C6: self-claim priority\<close>

text \<open>
  C6. If no seed processed before seed \<open>i\<close> has the id of seed \<open>i\<close> among its candidate
  ids, then the topic returned for seed \<open>i\<close> contains that id.
\<close>

theorem self_claim_priority:
  assumes "i < length (seeds messages)"
    and "\<forall>j<i. seed_id (seeds messages ! i) \<notin> set (ids (candidates S st messages ! j))"
  shows "seed_id (seeds messages ! i) \<in> set (ids (cluster S st messages ! i))"
proof -
  have "seed_id (seeds messages ! i) \<in> set (ids (candidates S st messages ! i))"
    using assms(1) by (simp add: candidates_nth candidate_ids_mem)
  moreover have "seed_id (seeds messages ! i) \<notin> set (assigned_before S st messages i)"
    using assms by (simp add: assigned_before_set)
  ultimately show ?thesis
    using assms(1) by (simp add: cluster_nth_ids claim_ids_fst_set)
qed

text \<open>On the second seed of the chat with one message with an id and one without.\<close>

theorem self_claim_priority_witness:
  "1 < length (seeds mixed_chat) \<and>
   seed_id (seeds mixed_chat ! 1) \<notin> set (ids (candidates run_a [] mixed_chat ! 0)) \<and>
   seed_id (seeds mixed_chat ! 1) \<in> set (ids (cluster run_a [] mixed_chat ! 1))"
proof -
  have h1: "1 < length (seeds mixed_chat)"
    by (simp add: seeds_mixed_chat)
  have h2: "seed_id (seeds mixed_chat ! 1) \<notin> set (ids (candidates run_a [] mixed_chat ! 0))"
    by (simp add: seeds_mixed_chat candidates_mixed_chat)
  then have "\<forall>j<1. seed_id (seeds mixed_chat ! 1) \<notin> set (ids (candidates run_a [] mixed_chat ! j))"
    by simp
  from self_claim_priority [OF h1 this] h1 h2 show ?thesis by blast
qed

subsection \<open>C7: one topic per seed\<close>

text \<open>
  C7. \<open>cluster\<close> returns as many topics as there are seeds, in the order of the seeds,
  and the topic at index \<open>i\<close> carries the title of the seed at index \<open>i\<close>. A topic that
  keeps no id is part of the result like any other.
\<close>

theorem cluster_one_topic_per_seed:
  "length (cluster S st messages) = length (seeds messages) \<and>
   (\<forall>i<length (seeds messages). title (cluster S st messages ! i) = seed_title (seeds messages ! i))"
proof -
  have "map title (cluster S st messages) = map seed_title (seeds messages)"
    by (simp add: cluster_def claim_topics_titles candidates_def candidate_def comp_def)
  then have "title (cluster S st messages ! i) = seed_title (seeds messages ! i)"
    if "i < length (seeds messages)" for i
    using that cluster_length [of S st messages] by (metis nth_map)
  then show ?thesis by (simp add: cluster_length)
qed

text \<open>
  On the scenario of the specification: the first topic claims all three ids, the second
  is returned with its title and the empty id list.
\<close>

theorem cluster_one_topic_per_seed_witness:
  "length (cluster run_a [] login_chat) = length (seeds login_chat) \<and>
   1 < length (seeds login_chat) \<and>
   title (cluster run_a [] login_chat ! 1) = seed_title (seeds login_chat ! 1) \<and>
   ids (cluster run_a [] login_chat ! 1) = []"
proof -
  have h: "1 < length (seeds login_chat)"
    by (simp add: seeds_login_chat)
  have e: "ids (cluster run_a [] login_chat ! 1) = []"
    by (simp add: cluster_login_chat)
  from cluster_one_topic_per_seed [of run_a "[]" login_chat] h e show ?thesis by blast
qed

subsection \<open>C8: empty input\<close>

text \<open>
  C8. On the empty message list there are no seeds and \<open>cluster\<close> returns the empty
  topic list, for every store and all services; \<open>buildFlows\<close> maps the empty topic list to
  the empty flow list.
\<close>

theorem empty_input_is_success:
  "seeds [] = [] \<and> cluster S st [] = [] \<and> buildFlows gen pm n [] = []"
  by (simp add: seeds_def cluster_def candidates_def)

subsection \<open>C9: a seed without id\<close>

text \<open>
  C9, as stated, says that the topic produced for the seed of a user message without id
  has the absent id as its first element. On two user messages without id the second
  message gives a seed with the absent id, and the topic returned for it is empty: the
  absent id and both generated identifiers were claimed by the first topic.
\<close>

theorem absent_id_seed_counterexample:
  "msg_role (two_anon_chat ! 1) = ''user'' \<and> msg_id (two_anon_chat ! 1) = None \<and>
   seeds two_anon_chat ! 1 = \<lparr>seed_id = None, seed_title = ''b''\<rparr> \<and>
   cluster run_a [] two_anon_chat ! 1 = \<lparr>title = ''b'', ids = []\<rparr>"
  by code_simp

text \<open>
  C9, amended. For a seed whose id is absent, the candidate id list built for it at line
  25 starts with the absent id, and the topic returned for it starts with the absent id
  exactly when no earlier seed has an absent id. A relevant message without id is stored
  under a generated identifier: the key of its \<^verbatim>\<open>upsert\<close> is the value of the call of
  \<^verbatim>\<open>randomUUID\<close> numbered by the relevant messages before it whose id is absent or
  empty. So the output can hold both the absent id and that identifier for one message.
\<close>

theorem absent_id_seed:
  assumes "i < length (seeds messages)" and "seed_id (seeds messages ! i) = None"
  shows "(\<exists>rest. ids (candidates S st messages ! i) = None # rest) \<and>
         ((\<exists>rest. ids (cluster S st messages ! i) = None # rest) \<longleftrightarrow>
            (\<forall>j<i. seed_id (seeds messages ! j) \<noteq> None)) \<and>
         (\<forall>p<length (relevant messages). msg_id (relevant messages ! p) = None \<longrightarrow>
            upsert_keys S 0 (relevant messages) ! p =
              randomUUID S (length (filter (\<lambda>m. msg_id m = None \<or> msg_id m = Some [])
                                      (take p (relevant messages)))))"
proof -
  obtain rest where rest: "ids (candidates S st messages ! i) = None # rest"
    using assms candidate_head [of S "store_after S st messages" "seeds messages ! i"]
    by (auto simp: candidates_nth)
  have mem: "None \<in> set (assigned_before S st messages i) \<longleftrightarrow>
      (\<exists>j<i. seed_id (seeds messages ! j) = None)"
  proof -
    have "None \<in> set (ids (candidates S st messages ! j)) \<longleftrightarrow> seed_id (seeds messages ! j) = None"
      if "j < i" for j
    proof -
      from that assms(1) have "j < length (seeds messages)" by simp
      then show ?thesis by (simp add: candidates_nth candidate_no_absent_hit)
    qed
    moreover have "set (assigned_before S st messages i) =
        (\<Union>j\<in>{..<i}. set (ids (candidates S st messages ! j)))"
      using assms(1) by (simp add: assigned_before_set)
    ultimately show ?thesis by auto
  qed
  have "ids (cluster S st messages ! i) =
           filter (\<lambda>x. x \<notin> set (assigned_before S st messages i))
             (ids (candidates S st messages ! i))"
    using assms(1) by (simp add: cluster_nth_ids claim_ids_filter candidates_distinct)
  then have f: "ids (cluster S st messages ! i) =
           filter (\<lambda>x. x \<notin> set (assigned_before S st messages i)) (None # rest)"
    by (simp only: rest)
  have "(\<exists>r. ids (cluster S st messages ! i) = None # r) \<longleftrightarrow>
      None \<notin> set (assigned_before S st messages i)"
  proof
    assume "\<exists>r. ids (cluster S st messages ! i) = None # r"
    then have "None \<in> set (ids (cluster S st messages ! i))" by auto
    then show "None \<notin> set (assigned_before S st messages i)"
      unfolding f by (auto split: if_splits)
  next
    assume "None \<notin> set (assigned_before S st messages i)"
    then show "\<exists>r. ids (cluster S st messages ! i) = None # r"
      unfolding f by simp
  qed
  with mem have iff: "(\<exists>rest. ids (cluster S st messages ! i) = None # rest) \<longleftrightarrow>
            (\<forall>j<i. seed_id (seeds messages ! j) \<noteq> None)"
    by simp
  have keys: "\<forall>p<length (relevant messages). msg_id (relevant messages ! p) = None \<longrightarrow>
            upsert_keys S 0 (relevant messages) ! p =
              randomUUID S (length (filter (\<lambda>m. msg_id m = None \<or> msg_id m = Some [])
                                      (take p (relevant messages))))"
    using upsert_keys_absent_id [of _ "relevant messages" S 0] by simp
  from rest have "\<exists>rest. ids (candidates S st messages ! i) = None # rest" ..
  then show ?thesis using iff keys by (intro conjI)
qed

text \<open>
  On the chat with one message with an id and one without: the second topic is
  \<open>[None]\<close>, and the first holds the identifier generated for the same message
  (\<open>cluster_mixed_chat\<close>).
\<close>

theorem absent_id_seed_witness:
  "1 < length (seeds mixed_chat) \<and> seed_id (seeds mixed_chat ! 1) = None \<and>
   seed_id (seeds mixed_chat ! 0) \<noteq> None \<and>
   (\<exists>rest. ids (candidates run_a [] mixed_chat ! 1) = None # rest) \<and>
   (\<exists>rest. ids (cluster run_a [] mixed_chat ! 1) = None # rest) \<and>
   msg_id (relevant mixed_chat ! 1) = None \<and>
   upsert_keys run_a 0 (relevant mixed_chat) ! 1 = randomUUID run_a 0"
proof -
  have h1: "1 < length (seeds mixed_chat)" and h2: "seed_id (seeds mixed_chat ! 1) = None"
    and h3: "seed_id (seeds mixed_chat ! 0) \<noteq> None"
    by (simp_all add: seeds_mixed_chat)
  from h3 have first: "\<forall>j<1. seed_id (seeds mixed_chat ! j) \<noteq> None"
    by simp
  have r: "1 < length (relevant mixed_chat)" "msg_id (relevant mixed_chat ! 1) = None"
    "length (filter (\<lambda>m. msg_id m = None \<or> msg_id m = Some []) (take 1 (relevant mixed_chat))) = 0"
    by (simp_all add: relevant_def mixed_chat_def user_msg_def)
  note a = absent_id_seed [OF h1 h2, of run_a "[]"]
  from a first have t: "\<exists>rest. ids (cluster run_a [] mixed_chat ! 1) = None # rest"
    by blast
  from a have c: "\<exists>rest. ids (candidates run_a [] mixed_chat ! 1) = None # rest"
    by blast
  from a r have k: "upsert_keys run_a 0 (relevant mixed_chat) ! 1 = randomUUID run_a 0"
    by simp
  from h1 h2 h3 c t r(2) k show ?thesis by blast
qed

subsection \<open>C10: at most 51 ids per topic\<close>

text \<open>
  C10. If \<^verbatim>\<open>query\<close> with \<open>k = 50\<close> never returns more than 50 hits, every topic that
  \<open>cluster\<close> returns has at most 51 ids.
\<close>

theorem topic_size_bound:
  assumes "\<forall>st' q. length (query S st' q 50) \<le> 50"
  shows "\<forall>t\<in>set (cluster S st messages). length (ids t) \<le> 51"
proof
  fix t
  assume "t \<in> set (cluster S st messages)"
  then obtain i where i: "i < length (seeds messages)" and t: "t = cluster S st messages ! i"
    by (auto simp: in_set_conv_nth cluster_length)
  have "length (ids t) \<le> length (ids (candidates S st messages ! i))"
    using i t by (simp add: cluster_nth_ids claim_ids_length)
  also have "\<dots> \<le> Suc (length (query S (store_after S st messages) (embed S (seed_title (seeds messages ! i))) 50))"
    using i by (simp add: candidates_nth candidate_ids_length)
  also have "\<dots> \<le> 51"
    using assms by simp
  finally show "length (ids t) \<le> 51" .
qed

text \<open>On the scenario of the specification, with the index of the specification.\<close>

theorem topic_size_bound_witness:
  "(\<forall>st' q. length (query run_a st' q 50) \<le> 50) \<and>
   cluster run_a [] login_chat ! 0 \<in> set (cluster run_a [] login_chat) \<and>
   length (ids (cluster run_a [] login_chat ! 0)) \<le> 51"
proof -
  have h: "\<forall>st' q. length (query run_a st' q 50) \<le> 50"
    using MemStore_query_length [of closeness _ _ 50] by (simp add: run_a_def MemStore_def)
  have m: "cluster run_a [] login_chat ! 0 \<in> set (cluster run_a [] login_chat)"
    by (simp add: cluster_login_chat)
  from topic_size_bound [OF h, of "[]" login_chat] h m show ?thesis by blast
qed

end
